theory Spec2Isabelle
  imports Main
begin

section \<open>Python values shared by the two agents\<close>

text \<open>
  An exception is its class name together with the text \<open>str(e)\<close> gives. Only instances of
  Python's \<open>Exception\<close> are modelled: these are what \<open>except Exception\<close> catches.
\<close>

datatype exn = Exn string string

fun str_exn :: "exn \<Rightarrow> string" where
  "str_exn (Exn cls txt) = txt"

definition IndexError :: exn where
  "IndexError = Exn ''IndexError'' ''list index out of range''"

text \<open>\<open>xs[-1]\<close>: the last item, IndexError on the empty list.\<close>

fun last_item :: "'a list \<Rightarrow> exn + 'a" where
  "last_item [] = Inl IndexError"
| "last_item (x # xs) = Inr (last (x # xs))"

text \<open>\<open>needle in hay\<close> on strings: \<open>needle\<close> occurs as a contiguous piece of \<open>hay\<close>.\<close>

fun str_in :: "string \<Rightarrow> string \<Rightarrow> bool" where
  "str_in needle [] = (needle = [])"
| "str_in needle (c # cs) = (take (length needle) (c # cs) = needle \<or> str_in needle cs)"

text \<open>
  \<open>str.lower()\<close>, character by character. The ASCII capitals go to their small letters;
  every other character is kept (\<open>str.lower\<close> sends no character outside ASCII to an
  ASCII \<open>y\<close>, \<open>e\<close> or \<open>s\<close>).
\<close>

definition lower_char :: "char \<Rightarrow> char" where
  "lower_char c =
     (case map_of (zip ''ABCDEFGHIJKLMNOPQRSTUVWXYZ'' ''abcdefghijklmnopqrstuvwxyz'') c of
        Some d \<Rightarrow> d
      | None \<Rightarrow> c)"

definition py_lower :: "string \<Rightarrow> string" where
  "py_lower s = map lower_char s"

text \<open>\<open>sep.join(parts)\<close>.\<close>

fun join :: "string \<Rightarrow> string list \<Rightarrow> string" where
  "join sep [] = []"
| "join sep [p] = p"
| "join sep (p # q # ps) = p @ sep @ join sep (q # ps)"

text \<open>\<open>str(n)\<close> for a non-negative integer: its decimal digits.\<close>

definition digit_char :: "nat \<Rightarrow> char" where
  "digit_char d = ''0123456789'' ! d"

fun str_nat :: "nat \<Rightarrow> string" where
  "str_nat n = (if n < 10 then [digit_char n] else str_nat (n div 10) @ [digit_char (n mod 10)])"

declare str_nat.simps [simp del]

text \<open>\<open>enumerate(xs)\<close>, counting from \<open>i\<close>.\<close>

fun enumerate_from :: "nat \<Rightarrow> 'a list \<Rightarrow> (nat \<times> 'a) list" where
  "enumerate_from i [] = []"
| "enumerate_from i (x # xs) = (i, x) # enumerate_from (Suc i) xs"

text \<open>
  The framework's message objects. An \<open>AIMessage\<close> carries its text and the tool calls it
  requests (name and arguments); one built from a text alone has none.
\<close>

type_synonym tool_call = "string \<times> string"

datatype base_message =
    SystemMessage string
  | HumanMessage string
  | AIMessage string "tool_call list"
  | ToolMessage string

fun is_human :: "base_message \<Rightarrow> bool" where
  "is_human (HumanMessage c) = True"
| "is_human m = False"

fun message_content :: "base_message \<Rightarrow> string" where
  "message_content (SystemMessage c) = c"
| "message_content (HumanMessage c) = c"
| "message_content (AIMessage c tcs) = c"
| "message_content (ToolMessage c) = c"


section \<open>langgraph\_agent.py: the search-or-not graph\<close>

subsection \<open>State and adapters\<close>

text \<open>A message of the conversation state: a dict with the keys \<open>role\<close> and \<open>content\<close>.\<close>

record message =
  role :: string
  content :: string

record agent_state =
  messages :: "message list"
  needs_search :: bool

text \<open>
  What a node returns: a dict holding some of the keys of the state. \<open>None\<close> is an
  absent key.
\<close>

record update =
  upd_messages :: "message list option"
  upd_needs_search :: "bool option"

text \<open>One result of the search tool; the nodes read its \<open>content\<close> only.\<close>

record search_result =
  res_url :: string
  res_content :: string

text \<open>
  The two external adapters. Each may raise, and its answer may depend on the calls made
  before (the second argument is the request, the first the requests already made).
  The world records every request sent to them, in order.
\<close>

record world =
  llm_calls :: "base_message list list"
  search_calls :: "string list"

record env =
  llm :: "base_message list list \<Rightarrow> base_message list \<Rightarrow> exn + string"
  search_tool :: "string list \<Rightarrow> string \<Rightarrow> exn + search_result list"

definition llm_invoke :: "env \<Rightarrow> base_message list \<Rightarrow> world \<Rightarrow> (exn + string) \<times> world" where
  "llm_invoke e prompt w =
     (llm e (llm_calls w) prompt, w\<lparr>llm_calls := llm_calls w @ [prompt]\<rparr>)"

definition search_tool_invoke ::
  "env \<Rightarrow> string \<Rightarrow> world \<Rightarrow> (exn + search_result list) \<times> world" where
  "search_tool_invoke e query w =
     (search_tool e (search_calls w) query, w\<lparr>search_calls := search_calls w @ [query]\<rparr>)"

subsection \<open>The nodes\<close>

definition decide_instruction :: string where
  "decide_instruction =
     ''Determine if this query requires current/real-time information '' @
     ''or factual verification that might change over time. '' @
     ''Respond ONLY with '' @ [CHR 0x27] @ ''yes'' @ [CHR 0x27] @ '' or '' @
     [CHR 0x27] @ ''no'' @ [CHR 0x27] @ ''.''"

definition decide_prompt :: "message \<Rightarrow> base_message list" where
  "decide_prompt m =
     [SystemMessage decide_instruction, HumanMessage (''Query: '' @ content m)]"

definition should_search_node ::
  "env \<Rightarrow> agent_state \<Rightarrow> world \<Rightarrow> (exn + update) \<times> world" where
  "should_search_node e state w =
     (case last_item (messages state) of
        Inl x \<Rightarrow> (Inl x, w)
      | Inr m \<Rightarrow>
          (case llm_invoke e (decide_prompt m) w of
             (Inl x, w') \<Rightarrow> (Inl x, w')
           | (Inr response, w') \<Rightarrow>
               (Inr \<lparr>upd_messages = None,
                     upd_needs_search = Some (str_in ''yes'' (py_lower response))\<rparr>, w')))"

definition result_line :: "nat \<times> search_result \<Rightarrow> string" where
  "result_line ir = ''Result '' @ str_nat (fst ir + 1) @ '': '' @ res_content (snd ir)"

definition formatted_results :: "search_result list \<Rightarrow> string" where
  "formatted_results results = join [CHR 0x0A] (map result_line (enumerate_from 0 results))"

definition search_message :: "string \<Rightarrow> search_result list \<Rightarrow> message" where
  "search_message query results =
     \<lparr>role = ''assistant'',
      content = ''Search results for '' @ [CHR 0x27] @ query @ [CHR 0x27] @ '':'' @
                [CHR 0x0A] @ formatted_results results\<rparr>"

definition search_node :: "env \<Rightarrow> agent_state \<Rightarrow> world \<Rightarrow> (exn + update) \<times> world" where
  "search_node e state w =
     (case last_item (messages state) of
        Inl x \<Rightarrow> (Inl x, w)
      | Inr m \<Rightarrow>
          (case search_tool_invoke e (content m) w of
             (Inl x, w') \<Rightarrow> (Inl x, w')
           | (Inr results, w') \<Rightarrow>
               (Inr \<lparr>upd_messages = Some [search_message (content m) results],
                     upd_needs_search = None\<rparr>, w')))"

text \<open>
  The loop of \<open>respond_node\<close> over the history: one step for one message, on the pair
  \<open>(user_query, search_results)\<close>, both \<open>None\<close> at the start.
\<close>

fun scan_step :: "string option \<times> string option \<Rightarrow> message \<Rightarrow> string option \<times> string option" where
  "scan_step (user_query, search_results) msg =
     (if role msg = ''user'' then (Some (content msg), search_results)
      else if role msg = ''assistant'' \<and> str_in ''Search results'' (content msg)
        then (user_query, Some (content msg))
      else (user_query, search_results))"

definition scan_messages :: "message list \<Rightarrow> string option \<times> string option" where
  "scan_messages msgs = foldl scan_step (None, None) msgs"

definition respond_instruction :: string where
  "respond_instruction =
     ''You are a helpful assistant. Answer the user'' @ [CHR 0x27] @
     ''s question based on the provided information.''"

text \<open>
  \<open>user_query or state["messages"][-1]["content"]\<close>: the right operand is evaluated, and
  may raise, only when \<open>user_query\<close> is \<open>None\<close> or empty.
\<close>

definition or_last_content :: "string option \<Rightarrow> message list \<Rightarrow> exn + string" where
  "or_last_content user_query msgs =
     (let right = (case last_item msgs of Inl x \<Rightarrow> Inl x | Inr m \<Rightarrow> Inr (content m))
      in case user_query of
           None \<Rightarrow> right
         | Some q \<Rightarrow> if q \<noteq> [] then Inr q else right)"

text \<open>
  The prompt \<open>respond_node\<close> assembles: the system instruction, the search results when
  there are some, and last a \<open>HumanMessage\<close> of the query.
\<close>

definition respond_prompt :: "agent_state \<Rightarrow> exn + base_message list" where
  "respond_prompt state =
     (case scan_messages (messages state) of (user_query, search_results) \<Rightarrow>
        (let msgs = [SystemMessage respond_instruction];
             msgs = (case search_results of
                       None \<Rightarrow> msgs
                     | Some s \<Rightarrow> if s \<noteq> [] then msgs @ [AIMessage s []] else msgs)
         in case or_last_content user_query (messages state) of
              Inl x \<Rightarrow> Inl x
            | Inr query \<Rightarrow> Inr (msgs @ [HumanMessage query])))"

definition respond_node :: "env \<Rightarrow> agent_state \<Rightarrow> world \<Rightarrow> (exn + update) \<times> world" where
  "respond_node e state w =
     (case respond_prompt state of
        Inl x \<Rightarrow> (Inl x, w)
      | Inr prompt \<Rightarrow>
          (case llm_invoke e prompt w of
             (Inl x, w') \<Rightarrow> (Inl x, w')
           | (Inr response, w') \<Rightarrow>
               (Inr \<lparr>upd_messages = Some [\<lparr>role = ''assistant'', content = response\<rparr>],
                     upd_needs_search = None\<rparr>, w')))"

definition route_after_decision :: "agent_state \<Rightarrow> string" where
  "route_after_decision state = (if needs_search state then ''search'' else ''respond'')"

subsection \<open>The graph\<close>

text \<open>
  What \<open>StateGraph\<close> collects: the named nodes, the entry point, the conditional edges (a
  router and the table from its answers to node names) and the plain edges.
\<close>

type_synonym node_fn = "agent_state \<Rightarrow> world \<Rightarrow> (exn + update) \<times> world"

record graph =
  nodes :: "(string \<times> node_fn) list"
  entry_point :: string
  conditional_edges :: "(string \<times> (agent_state \<Rightarrow> string) \<times> (string \<times> string) list) list"
  edges :: "(string \<times> string) list"

definition END :: string where
  "END = ''__end__''"

definition workflow :: "env \<Rightarrow> graph" where
  "workflow e =
     \<lparr>nodes = [(''decide'', should_search_node e),
               (''search'', search_node e),
               (''respond'', respond_node e)],
      entry_point = ''decide'',
      conditional_edges =
        [(''decide'', route_after_decision,
          [(''search'', ''search''), (''respond'', ''respond'')])],
      edges = [(''search'', ''respond''), (''respond'', END)]\<rparr>"

text \<open>
  Modelled from the spec: the framework's reducers and its execution of a compiled graph
  are not part of the repository. A node's partial update is merged into the state
  (message lists concatenate, as the \<open>operator.add\<close> annotation of \<open>AgentState\<close> says;
  a scalar flag is overwritten); a run is one sequential pass that starts at the entry
  point, runs a node, merges its update and follows the node's outgoing edge until END. An
  exception raised in a node ends the run at that node. The number of node executions is
  bounded by a recursion limit, whose overrun is an error of its own.
\<close>

definition merge_update :: "agent_state \<Rightarrow> update \<Rightarrow> agent_state" where
  "merge_update state u =
     \<lparr>messages = (case upd_messages u of None \<Rightarrow> messages state
                                       | Some ms \<Rightarrow> messages state @ ms),
      needs_search = (case upd_needs_search u of None \<Rightarrow> needs_search state
                                               | Some b \<Rightarrow> b)\<rparr>"

definition successor :: "graph \<Rightarrow> string \<Rightarrow> agent_state \<Rightarrow> string option" where
  "successor g n state =
     (case map_of (conditional_edges g) n of
        Some (router, table) \<Rightarrow> map_of table (router state)
      | None \<Rightarrow> map_of (edges g) n)"

definition GraphRecursionError :: exn where
  "GraphRecursionError = Exn ''GraphRecursionError'' ''Recursion limit reached''"

definition InvalidGraph :: exn where
  "InvalidGraph = Exn ''ValueError'' ''unknown node or missing edge''"

text \<open>
  The outcome of a run: the nodes entered, in order; the state and the world when the run
  ended; and the exception that ended it, \<open>None\<close> when the run reached END.
\<close>

record run =
  trace :: "string list"
  final_state :: agent_state
  final_world :: world
  raised :: "exn option"

fun exec :: "graph \<Rightarrow> nat \<Rightarrow> string \<Rightarrow> agent_state \<Rightarrow> world \<Rightarrow> string list \<Rightarrow> run" where
  "exec g limit n state w tr =
     (if n = END then \<lparr>trace = tr, final_state = state, final_world = w, raised = None\<rparr>
      else case limit of
        0 \<Rightarrow> \<lparr>trace = tr, final_state = state, final_world = w,
              raised = Some GraphRecursionError\<rparr>
      | Suc k \<Rightarrow>
          (case map_of (nodes g) n of
             None \<Rightarrow> \<lparr>trace = tr, final_state = state, final_world = w,
                       raised = Some InvalidGraph\<rparr>
           | Some f \<Rightarrow>
               (case f state w of
                  (Inl x, w') \<Rightarrow> \<lparr>trace = tr @ [n], final_state = state, final_world = w',
                                   raised = Some x\<rparr>
                | (Inr u, w') \<Rightarrow>
                    (case successor g n (merge_update state u) of
                       None \<Rightarrow> \<lparr>trace = tr @ [n], final_state = merge_update state u,
                                 final_world = w', raised = Some InvalidGraph\<rparr>
                     | Some n' \<Rightarrow> exec g k n' (merge_update state u) w' (tr @ [n])))))"

declare exec.simps [simp del]

text \<open>\<open>app.invoke(inputs)\<close> on the compiled workflow.\<close>

definition app_invoke :: "env \<Rightarrow> nat \<Rightarrow> agent_state \<Rightarrow> world \<Rightarrow> run" where
  "app_invoke e limit inputs w =
     exec (workflow e) limit (entry_point (workflow e)) inputs w []"

subsection \<open>Notions the properties are stated with\<close>

text \<open>A user-role message of the state, and a message the respond node takes as search context.\<close>

definition is_user :: "message \<Rightarrow> bool" where
  "is_user m = (role m = ''user'')"

definition is_search_context :: "message \<Rightarrow> bool" where
  "is_search_context m = (role m = ''assistant'' \<and> str_in ''Search results'' (content m))"

text \<open>The content of the last message of a list, \<open>None\<close> for the empty list.\<close>

definition last_content :: "message list \<Rightarrow> string option" where
  "last_content ms = (case ms of [] \<Rightarrow> None | m # rest \<Rightarrow> Some (content (last ms)))"

text \<open>
  The query the respond node ends its prompt with: the content of the latest user-role
  message when there is one and it is not empty, the content of the last message otherwise.
\<close>

definition final_query :: "message list \<Rightarrow> string" where
  "final_query ms =
     (case last_content (filter is_user ms) of
        Some q \<Rightarrow> if q \<noteq> [] then q else content (last ms)
      | None \<Rightarrow> content (last ms))"

text \<open>What precedes the query: the instruction, then the latest search context if any.\<close>

definition prompt_head :: "message list \<Rightarrow> base_message list" where
  "prompt_head ms =
     (case last_content (filter is_search_context ms) of
        Some s \<Rightarrow> [SystemMessage respond_instruction, AIMessage s []]
      | None \<Rightarrow> [SystemMessage respond_instruction])"

text \<open>
  A text contains "yes" as a case-insensitive substring: at some position it reads
  \<open>y\<close> or \<open>Y\<close>, then \<open>e\<close> or \<open>E\<close>, then \<open>s\<close> or \<open>S\<close>.
\<close>

fun starts_with_yes_ci :: "string \<Rightarrow> bool" where
  "starts_with_yes_ci (a # b # c # rest) =
     ((a = CHR ''y'' \<or> a = CHR ''Y'') \<and> (b = CHR ''e'' \<or> b = CHR ''E'') \<and>
      (c = CHR ''s'' \<or> c = CHR ''S''))"
| "starts_with_yes_ci s = False"

fun contains_yes_ci :: "string \<Rightarrow> bool" where
  "contains_yes_ci [] = False"
| "contains_yes_ci (c # cs) = (starts_with_yes_ci (c # cs) \<or> contains_yes_ci cs)"

subsection \<open>Concrete inputs\<close>

definition w0 :: world where
  "w0 = \<lparr>llm_calls = [], search_calls = []\<rparr>"

definition user_says :: "string \<Rightarrow> message" where
  "user_says c = \<lparr>role = ''user'', content = c\<rparr>"

definition assistant_says :: "string \<Rightarrow> message" where
  "assistant_says c = \<lparr>role = ''assistant'', content = c\<rparr>"

text \<open>
  A model that answers \<open>Yes.\<close> to the first request and \<open>It is sunny.\<close> to every later
  one, with a search tool that finds two results.
\<close>

definition two_results :: "search_result list" where
  "two_results = [\<lparr>res_url = ''u1'', res_content = ''a''\<rparr>,
                  \<lparr>res_url = ''u2'', res_content = ''b''\<rparr>]"

definition demo_env :: env where
  "demo_env =
     \<lparr>llm = (\<lambda>h p. Inr (if h = [] then ''Yes.'' else ''It is sunny.'')),
      search_tool = (\<lambda>h q. Inr two_results)\<rparr>"

text \<open>The same model asked for a search that fails.\<close>

definition ConnectionError :: exn where
  "ConnectionError = Exn ''ConnectionError'' ''search unavailable''"

definition search_down_env :: env where
  "search_down_env =
     \<lparr>llm = (\<lambda>h p. Inr ''yes''),
      search_tool = (\<lambda>h q. Inl ConnectionError)\<rparr>"

definition weather_inputs :: agent_state where
  "weather_inputs = \<lparr>messages = [user_says ''weather today?''], needs_search = False\<rparr>"

definition empty_inputs :: agent_state where
  "empty_inputs = \<lparr>messages = [], needs_search = False\<rparr>"

definition two_turn_inputs :: agent_state where
  "two_turn_inputs =
     \<lparr>messages = [user_says ''What is LangGraph?'', assistant_says ''A library.'',
                  user_says ''Who maintains it?''],
      needs_search = False\<rparr>"

section \<open>lanchain\_agent\_aws\_memory.py: the memory hook and the invocation entrypoint\<close>

subsection \<open>Values of the payload\<close>

text \<open>
  The values a decoded JSON payload is made of (numbers are the integers). A dict is the
  list of its items; a key is looked up from the front.
\<close>

datatype pyval =
    PNone
  | PBool bool
  | PInt int
  | PStr string
  | PList "pyval list"
  | PDict "(string \<times> pyval) list"

text \<open>The truth value \<open>not\<close> and \<open>if\<close> take a value for.\<close>

fun truthy :: "pyval \<Rightarrow> bool" where
  "truthy PNone = False"
| "truthy (PBool b) = b"
| "truthy (PInt i) = (i \<noteq> 0)"
| "truthy (PStr s) = (s \<noteq> [])"
| "truthy (PList xs) = (xs \<noteq> [])"
| "truthy (PDict kvs) = (kvs \<noteq> [])"

text \<open>\<open>isinstance(v, dict)\<close>.\<close>

fun is_dict :: "pyval \<Rightarrow> bool" where
  "is_dict (PDict kvs) = True"
| "is_dict v = False"

text \<open>\<open>d.get(key, dflt)\<close>.\<close>

definition dict_get :: "(string \<times> pyval) list \<Rightarrow> string \<Rightarrow> pyval \<Rightarrow> pyval" where
  "dict_get d key dflt = (case map_of d key of Some v \<Rightarrow> v | None \<Rightarrow> dflt)"

fun type_name :: "pyval \<Rightarrow> string" where
  "type_name PNone = ''NoneType''"
| "type_name (PBool b) = ''bool''"
| "type_name (PInt i) = ''int''"
| "type_name (PStr s) = ''str''"
| "type_name (PList xs) = ''list''"
| "type_name (PDict kvs) = ''dict''"

text \<open>
  \<open>str.strip()\<close> removes the white space at both ends. A character of the model is
  a code point below \<open>0x100\<close>; those for which \<open>str.isspace\<close> holds are the tab,
  newline, vertical tab, form feed and carriage return (\<open>0x09\<close> to \<open>0x0D\<close>), the
  four separators \<open>0x1C\<close> to \<open>0x1F\<close>, the space, the next-line control \<open>0x85\<close> and
  the no-break space \<open>0xA0\<close>.
\<close>

definition is_space :: "char \<Rightarrow> bool" where
  "is_space c =
     (c \<in> set [CHR 0x09, CHR 0x0A, CHR 0x0B, CHR 0x0C, CHR 0x0D,
               CHR 0x1C, CHR 0x1D, CHR 0x1E, CHR 0x1F, CHR 0x20,
               CHR 0x85, CHR 0xA0])"

definition py_strip :: "string \<Rightarrow> string" where
  "py_strip s = rev (dropWhile is_space (rev (dropWhile is_space s)))"

text \<open>\<open>v.strip()\<close> on any value: only a string has the method.\<close>

definition AttributeError :: "pyval \<Rightarrow> string \<Rightarrow> exn" where
  "AttributeError v attr =
     Exn ''AttributeError''
       ([CHR 0x27] @ type_name v @ [CHR 0x27] @ '' object has no attribute '' @
        [CHR 0x27] @ attr @ [CHR 0x27])"

fun strip_method :: "pyval \<Rightarrow> exn + string" where
  "strip_method (PStr s) = Inr (py_strip s)"
| "strip_method v = Inl (AttributeError v ''strip'')"

subsection \<open>The memory store and the pre-model hook\<close>

text \<open>
  The \<open>configurable\<close> part of the run configuration. Its two entries are whatever the
  payload gave, so they are values.
\<close>

record config =
  thread_id :: pyval
  actor_id :: pyval

type_synonym namespace = "pyval \<times> pyval"

text \<open>
  What the hook does to the outside, in order: drawing an id from \<open>uuid.uuid4()\<close>, a
  \<open>store.put\<close> (namespace, key, the message stored under \<open>message\<close>), a
  \<open>store.search\<close> (namespace, query, limit) and a line printed.
\<close>

datatype effect =
    Uuid4 string
  | StorePut namespace string base_message
  | StoreSearch namespace string nat
  | Print string

text \<open>
  The id source and the store are external: each answer may depend on the effects so far
  (the first argument). A \<open>put\<close> returns nothing or raises; a \<open>search\<close> returns the
  items found or raises. An item is the text its stored \<open>message\<close> renders to.
\<close>

record memory_env =
  uuid4 :: "effect list \<Rightarrow> string"
  store_put :: "effect list \<Rightarrow> namespace \<Rightarrow> string \<Rightarrow> base_message \<Rightarrow> exn option"
  store_search :: "effect list \<Rightarrow> namespace \<Rightarrow> string \<Rightarrow> nat \<Rightarrow> exn + string list"

text \<open>\<open>state.get("messages", [])\<close>: the state may lack the key.\<close>

definition state_messages :: "base_message list option \<Rightarrow> base_message list" where
  "state_messages state = (case state of None \<Rightarrow> [] | Some ms \<Rightarrow> ms)"

definition memory_context :: "string list \<Rightarrow> string" where
  "memory_context preferences = join [CHR 0x0A] (map (\<lambda>item. ''Memory: '' @ item) preferences)"

text \<open>
  The hook returns the dict \<open>{"messages": messages}\<close>, modelled by its one value, or
  raises; with it comes the log of effects, extended.
\<close>

definition pre_model_hook ::
  "memory_env \<Rightarrow> config \<Rightarrow> base_message list option \<Rightarrow> effect list \<Rightarrow>
     (exn + base_message list) \<times> effect list" where
  "pre_model_hook env cfg state log =
     (let namespace = (actor_id cfg, thread_id cfg);
          msgs = state_messages state
      in case find is_human (rev msgs) of
           None \<Rightarrow> (Inr msgs, log)
         | Some msg \<Rightarrow>
             (let key = uuid4 env log;
                  log1 = log @ [Uuid4 key];
                  log2 = log1 @ [StorePut namespace key msg]
              in case store_put env log1 namespace key msg of
                   Some x \<Rightarrow> (Inl x, log2)
                 | None \<Rightarrow>
                     (let user_preferences_namespace = (PStr ''preferences'', actor_id cfg);
                          log3 = log2 @ [StoreSearch user_preferences_namespace
                                           (message_content msg) 5]
                      in case store_search env log2 user_preferences_namespace
                                (message_content msg) 5 of
                           Inl x \<Rightarrow>
                             (Inr msgs,
                              log3 @ [Print (''Memory retrieval error: '' @ str_exn x)])
                         | Inr preferences \<Rightarrow>
                             if preferences \<noteq> []
                             then (Inr msgs,
                                   log3 @ [Print (''Retrieved memories: '' @
                                                  memory_context preferences)])
                             else (Inr msgs, log3))))"

subsection \<open>The invocation entrypoint\<close>

text \<open>
  A chunk of the agent's stream is a dict; all that is read of it is the list under
  \<open>messages\<close>, \<open>None\<close> when the key is absent. The stream is external: it yields some
  chunks and then ends, or raises after them.
\<close>

type_synonym chunk = "base_message list option"

record stream_result =
  chunks :: "chunk list"
  stream_raised :: "exn option"

type_synonym agent_executor = "base_message list \<Rightarrow> config \<Rightarrow> stream_result"

text \<open>
  The test on the last message of a chunk: an \<open>AIMessage\<close> with a non-empty content and
  no tool calls.
\<close>

fun is_final_answer :: "base_message \<Rightarrow> bool" where
  "is_final_answer (AIMessage c tcs) = (c \<noteq> [] \<and> tcs = [])"
| "is_final_answer m = False"

text \<open>
  The body of the loop on one chunk, on \<open>final_answer\<close> (what it prints is left out):
  \<open>chunk["messages"][-1]\<close> raises on an empty list.
\<close>

fun capture :: "chunk \<Rightarrow> string option \<Rightarrow> exn + string option" where
  "capture None final_answer = Inr final_answer"
| "capture (Some msgs) final_answer =
     (case last_item msgs of
        Inl x \<Rightarrow> Inl x
      | Inr last_msg \<Rightarrow>
          Inr (if is_final_answer last_msg then Some (message_content last_msg)
               else final_answer))"

fun consume :: "chunk list \<Rightarrow> nat \<Rightarrow> string option \<Rightarrow> exn + nat \<times> string option" where
  "consume [] step final_answer = Inr (step, final_answer)"
| "consume (c # cs) step final_answer =
     (case capture c final_answer of
        Inl x \<Rightarrow> Inl x
      | Inr fa \<Rightarrow> consume cs (step + 1) fa)"

text \<open>The \<open>for\<close> loop over the stream: the chunks in order, then the stream's own end.\<close>

definition run_stream :: "stream_result \<Rightarrow> exn + nat \<times> string option" where
  "run_stream s =
     (case consume (chunks s) 0 None of
        Inl x \<Rightarrow> Inl x
      | Inr r \<Rightarrow> (case stream_raised s of Some x \<Rightarrow> Inl x | None \<Rightarrow> Inr r))"

text \<open>The records returned, as dicts.\<close>

type_synonym response = "(string \<times> pyval) list"

definition invalid_payload_text :: string where
  "invalid_payload_text =
     ''Invalid payload format. Expected JSON dict with '' @ [CHR 0x27] @ ''prompt'' @
     [CHR 0x27] @ '' key''"

definition no_prompt_text :: string where
  "no_prompt_text =
     ''No prompt found in input. Please provide a '' @ [CHR 0x27] @ ''prompt'' @
     [CHR 0x27] @ '' key with your question.''"

text \<open>The run configuration built from the payload, with its defaults.\<close>

definition run_config :: "(string \<times> pyval) list \<Rightarrow> config" where
  "run_config d =
     (let actor = dict_get d ''actor_id'' (PStr ''default-user'');
          thread = dict_get d ''thread_id''
                     (dict_get d ''session_id'' (PStr ''default-session''))
      in \<lparr>thread_id = thread, actor_id = actor\<rparr>)"

text \<open>What stands inside the outer \<open>try\<close>: it returns a record or raises.\<close>

definition invocation_body :: "agent_executor \<Rightarrow> pyval \<Rightarrow> exn + response" where
  "invocation_body agent payload =
     (if \<not> truthy payload \<or> \<not> is_dict payload
      then Inr [(''error'', PStr invalid_payload_text), (''result'', PNone)]
      else case payload of
        PDict d \<Rightarrow>
          (case strip_method (dict_get d ''prompt'' (PStr '''')) of
             Inl x \<Rightarrow> Inl x
           | Inr user_message \<Rightarrow>
               (let cfg = run_config d
                in if user_message = []
                   then Inr [(''error'', PStr no_prompt_text), (''result'', PNone)]
                   else (case run_stream (agent [HumanMessage user_message] cfg) of
                           Inl x \<Rightarrow>
                             Inr [(''error'',
                                   PStr (''Error during agent execution: '' @ str_exn x)),
                                  (''result'', PNone)]
                         | Inr (step, final_answer) \<Rightarrow>
                             (case final_answer of
                                None \<Rightarrow>
                                  Inr [(''error'', PStr ''Agent failed to generate a response''),
                                       (''result'', PNone)]
                              | Some answer \<Rightarrow>
                                  if answer = []
                                  then Inr [(''error'',
                                             PStr ''Agent failed to generate a response''),
                                            (''result'', PNone)]
                                  else Inr [(''result'', PStr answer),
                                            (''steps'', PInt (int step)),
                                            (''success'', PBool True)]))))
      | other \<Rightarrow> Inr [(''error'', PStr invalid_payload_text), (''result'', PNone)])"

text \<open>The entrypoint: the body under the outer \<open>except Exception\<close>.\<close>

definition agent_invocation :: "agent_executor \<Rightarrow> pyval \<Rightarrow> pyval \<Rightarrow> exn + response" where
  "agent_invocation agent payload context =
     (case invocation_body agent payload of
        Inr r \<Rightarrow> Inr r
      | Inl x \<Rightarrow>
          Inr [(''error'', PStr (''Unexpected error in agent_invocation: '' @ str_exn x)),
               (''result'', PNone),
               (''success'', PBool False)])"

subsection \<open>Notions the properties are stated with\<close>

text \<open>
  The final answer a chunk shows: the content of its last message when that message
  passes the test; and the final answers of a stream, in order.
\<close>

fun chunk_answer :: "chunk \<Rightarrow> string option" where
  "chunk_answer None = None"
| "chunk_answer (Some msgs) =
     (if msgs \<noteq> [] \<and> is_final_answer (last msgs) then Some (message_content (last msgs))
      else None)"

definition final_answers :: "chunk list \<Rightarrow> string list" where
  "final_answers cs = List.map_filter chunk_answer cs"




subsection \<open>Concrete inputs\<close>

definition u1_t1 :: config where
  "u1_t1 = \<lparr>thread_id = PStr ''t1'', actor_id = PStr ''u1''\<rparr>"

definition LookupError :: exn where
  "LookupError = Exn ''ServiceError'' ''lookup failed''"

text \<open>A store whose writes succeed and whose lookups all raise.\<close>

definition failing_lookup_store :: memory_env where
  "failing_lookup_store =
     \<lparr>uuid4 = (\<lambda>log. ''id-'' @ str_nat (length log)),
      store_put = (\<lambda>log ns key msg. None),
      store_search = (\<lambda>log ns query limit. Inl LookupError)\<rparr>"

text \<open>A store whose writes all raise.\<close>

definition WriteError :: exn where
  "WriteError = Exn ''ServiceError'' ''write failed''"

definition failing_put_store :: memory_env where
  "failing_put_store =
     \<lparr>uuid4 = (\<lambda>log. ''id-'' @ str_nat (length log)),
      store_put = (\<lambda>log ns key msg. Some WriteError),
      store_search = (\<lambda>log ns query limit. Inr [])\<rparr>"

text \<open>An agent that answers \<open>4\<close> in its second chunk, and one whose answer is empty.\<close>

definition answering_agent :: agent_executor where
  "answering_agent input cfg =
     \<lparr>chunks = [Some input, Some (input @ [AIMessage ''4'' []])], stream_raised = None\<rparr>"

definition silent_agent :: agent_executor where
  "silent_agent input cfg =
     \<lparr>chunks = [Some input, Some (input @ [AIMessage [] []])], stream_raised = None\<rparr>"



section \<open>Properties of the search-or-not graph\<close>

subsection \<open>The scan of the history\<close>

lemma last_content_snoc: "last_content (ms @ [m]) = Some (content m)"
  by (cases ms) (simp_all add: last_content_def)

lemma last_content_Nil: "last_content [] = None"
  by (simp add: last_content_def)

lemma scan_messages_snoc: "scan_messages (ms @ [m]) = scan_step (scan_messages ms) m"
  by (simp add: scan_messages_def)

lemma is_search_context_not_user: "is_search_context m \<Longrightarrow> \<not> is_user m"
  by (auto simp: is_search_context_def is_user_def)

text \<open>
  The loop keeps the content of the latest user-role message and of the latest search
  context: each matching message overwrites what an earlier one left.
\<close>

lemma scan_messages_eq:
  "scan_messages ms =
     (last_content (filter is_user ms), last_content (filter is_search_context ms))"
proof (induction ms rule: rev_induct)
  case Nil
  show ?case by (simp add: scan_messages_def last_content_Nil)
next
  case (snoc m ms)
  show ?case
  proof (cases "is_user m")
    case True
    then have "\<not> is_search_context m" using is_search_context_not_user by blast
    with True snoc show ?thesis
      by (simp add: scan_messages_snoc last_content_snoc) (simp add: is_user_def)
  next
    case False
    with snoc show ?thesis
      by (auto simp: scan_messages_snoc last_content_snoc is_user_def is_search_context_def)
  qed
qed

lemma search_context_nonempty: "is_search_context m \<Longrightarrow> content m \<noteq> []"
  by (auto simp: is_search_context_def)

lemma last_content_search_nonempty:
  assumes a: "last_content (filter is_search_context ms) = Some s"
  shows "s \<noteq> []"
proof -
  from a have ne: "filter is_search_context ms \<noteq> []"
    by (auto simp: last_content_def)
  then have "last (filter is_search_context ms) \<in> set (filter is_search_context ms)"
    by (rule last_in_set)
  then have "is_search_context (last (filter is_search_context ms))" by simp
  moreover from a ne have "s = content (last (filter is_search_context ms))"
    by (auto simp: last_content_def split: list.splits)
  ultimately show ?thesis by (simp add: search_context_nonempty)
qed

lemma or_last_content_nonempty:
  assumes "msgs \<noteq> []"
  shows "or_last_content (last_content (filter is_user msgs)) msgs = Inr (final_query msgs)"
proof -
  obtain m ms where ms: "msgs = m # ms" using assms by (cases msgs) auto
  show ?thesis
    by (simp add: or_last_content_def final_query_def ms split: option.splits)
qed

lemma respond_prompt_nonempty:
  assumes "messages st \<noteq> []"
  shows "respond_prompt st =
           Inr (prompt_head (messages st) @ [HumanMessage (final_query (messages st))])"
proof (cases "last_content (filter is_search_context (messages st))")
  case None
  then show ?thesis
    by (simp add: respond_prompt_def scan_messages_eq prompt_head_def
          or_last_content_nonempty [OF assms])
next
  case (Some s)
  then have "s \<noteq> []" by (rule last_content_search_nonempty)
  with Some show ?thesis
    by (simp add: respond_prompt_def scan_messages_eq prompt_head_def
          or_last_content_nonempty [OF assms])
qed




subsection \<open>The test for "yes"\<close>

lemma lower_char_y: "lower_char c = CHR ''y'' \<longleftrightarrow> c = CHR ''y'' \<or> c = CHR ''Y''"
  by (simp add: lower_char_def)

lemma lower_char_e: "lower_char c = CHR ''e'' \<longleftrightarrow> c = CHR ''e'' \<or> c = CHR ''E''"
  by (simp add: lower_char_def)

lemma lower_char_s: "lower_char c = CHR ''s'' \<longleftrightarrow> c = CHR ''s'' \<or> c = CHR ''S''"
  by (simp add: lower_char_def)

lemma take3_lower:
  "take (length ''yes'') (map lower_char s) = ''yes'' \<longleftrightarrow> starts_with_yes_ci s"
proof (cases s)
  case Nil
  then show ?thesis by simp
next
  case s: (Cons a s1)
  show ?thesis
  proof (cases s1)
    case Nil
    with s show ?thesis by simp
  next
    case s1: (Cons b s2)
    show ?thesis
    proof (cases s2)
      case Nil
      with s s1 show ?thesis by simp
    next
      case (Cons c s3)
      with s s1 show ?thesis
        by (simp add: lower_char_y lower_char_e lower_char_s)
    qed
  qed
qed

lemma yes_in_lower: "str_in ''yes'' (py_lower t) = contains_yes_ci t"
proof (induction t)
  case Nil
  show ?case by (simp add: py_lower_def)
next
  case (Cons c cs)
  have "str_in ''yes'' (py_lower (c # cs)) =
        (take (length ''yes'') (map lower_char (c # cs)) = ''yes'' \<or>
         str_in ''yes'' (py_lower cs))"
    by (simp add: py_lower_def)
  also have "\<dots> = (starts_with_yes_ci (c # cs) \<or> contains_yes_ci cs)"
    using Cons.IH take3_lower[of "c # cs"] by simp
  finally show ?case by simp
qed

text \<open>\<open>contains_yes_ci\<close> is the substring test it is meant to be.\<close>

lemma contains_yes_ci_iff:
  "contains_yes_ci t \<longleftrightarrow>
     (\<exists>pre a b c post. t = pre @ a # b # c # post \<and>
        (a = CHR ''y'' \<or> a = CHR ''Y'') \<and> (b = CHR ''e'' \<or> b = CHR ''E'') \<and>
        (c = CHR ''s'' \<or> c = CHR ''S''))"
proof (induction t)
  case Nil
  show ?case by simp
next
  case (Cons x xs)
  show ?case (is "?L = ?R")
  proof
    assume ?L
    then consider "starts_with_yes_ci (x # xs)" | "contains_yes_ci xs" by auto
    then show ?R
    proof cases
      case 1
      then obtain b c rest where "xs = b # c # rest"
        by (cases xs; cases "tl xs") auto
      with 1 show ?thesis by (intro exI[of _ "[]"]) auto
    next
      case 2
      with Cons.IH obtain pre a b c post where
        "xs = pre @ a # b # c # post" "a = CHR ''y'' \<or> a = CHR ''Y''"
        "b = CHR ''e'' \<or> b = CHR ''E''" "c = CHR ''s'' \<or> c = CHR ''S''" by blast
      then show ?thesis by (intro exI[of _ "x # pre"]) auto
    qed
  next
    assume ?R
    then obtain pre a b c post where
      eq: "x # xs = pre @ a # b # c # post" and l: "a = CHR ''y'' \<or> a = CHR ''Y''"
        "b = CHR ''e'' \<or> b = CHR ''E''" "c = CHR ''s'' \<or> c = CHR ''S''" by blast
    show ?L
    proof (cases pre)
      case Nil
      with eq l show ?thesis by auto
    next
      case (Cons p pre')
      with eq have "xs = pre' @ a # b # c # post" by simp
      with l Cons.IH have "contains_yes_ci xs" by blast
      then show ?thesis by simp
    qed
  qed
qed

subsection \<open>The format of the search results\<close>

lemma enumerate_from_length: "length (enumerate_from i xs) = length xs"
  by (induction xs arbitrary: i) simp_all

lemma enumerate_from_nth: "k < length xs \<Longrightarrow> enumerate_from i xs ! k = (i + k, xs ! k)"
proof (induction xs arbitrary: i k)
  case Nil
  then show ?case by simp
next
  case (Cons x xs)
  then show ?case by (cases k) simp_all
qed

lemma str_nat_1: "str_nat 1 = ''1''"
  by code_simp

lemma str_nat_2: "str_nat 2 = ''2''"
  by code_simp

lemma formatted_two_results:
  "formatted_results [\<lparr>res_url = u1, res_content = ''a''\<rparr>, \<lparr>res_url = u2, res_content = ''b''\<rparr>]
     = ''Result 1: a'' @ [CHR 0x0A] @ ''Result 2: b''"
  using str_nat_1 str_nat_2
  by (simp add: formatted_results_def result_line_def numeral_2_eq_2)

lemma join_snoc: "ps \<noteq> [] \<Longrightarrow> join sep (ps @ [p]) = join sep ps @ sep @ p"
proof (induction ps)
  case Nil
  then show ?case by simp
next
  case (Cons a ps)
  show ?case
  proof (cases ps)
    case Nil
    then show ?thesis by simp
  next
    case (Cons b qs)
    with Cons.IH show ?thesis by simp
  qed
qed

lemma enumerate_from_snoc:
  "enumerate_from i (xs @ [x]) = enumerate_from i xs @ [(i + length xs, x)]"
  by (induction xs arbitrary: i) simp_all

lemma formatted_results_Nil: "formatted_results [] = []"
  by (simp add: formatted_results_def)

lemma formatted_results_single:
  "formatted_results [r] = ''Result 1: '' @ res_content r"
  using str_nat_1 by (simp add: formatted_results_def result_line_def)

lemma formatted_results_snoc:
  assumes "rs \<noteq> []"
  shows "formatted_results (rs @ [r]) =
           formatted_results rs @ [CHR 0x0A] @ ''Result '' @ str_nat (length rs + 1) @ '': '' @
           res_content r"
proof -
  have "map result_line (enumerate_from 0 rs) \<noteq> []"
    using assms by (cases rs) simp_all
  then show ?thesis
    by (simp add: formatted_results_def enumerate_from_snoc join_snoc result_line_def)
qed

lemma str_nat_small: "n < 10 \<Longrightarrow> str_nat n = [''0123456789'' ! n]"
  by (subst str_nat.simps) (simp add: digit_char_def)

lemma str_nat_large: "10 \<le> n \<Longrightarrow> str_nat n = str_nat (n div 10) @ str_nat (n mod 10)"
proof -
  assume a: "10 \<le> n"
  have m: "n mod 10 < 10" by simp
  have "str_nat n = str_nat (n div 10) @ [digit_char (n mod 10)]"
    using a by (subst str_nat.simps) simp
  moreover have "str_nat (n mod 10) = [digit_char (n mod 10)]"
    using m by (subst str_nat.simps) simp
  ultimately show ?thesis by simp
qed

subsection \<open>One node at a time\<close>

lemma search_node_update:
  "search_node e st w = (Inr u, w') \<Longrightarrow> upd_needs_search u = None \<and> upd_messages u \<noteq> None"
  by (auto simp: search_node_def split: sum.splits prod.splits)

lemma respond_node_update:
  "respond_node e st w = (Inr u, w') \<Longrightarrow> upd_needs_search u = None \<and> upd_messages u \<noteq> None"
  by (auto simp: respond_node_def split: sum.splits prod.splits)

lemma should_search_node_update:
  "should_search_node e st w = (Inr u, w') \<Longrightarrow>
     upd_needs_search u \<noteq> None \<and> upd_messages u = None"
  by (auto simp: should_search_node_def split: sum.splits prod.splits)

lemma merge_keeps_flag:
  "upd_needs_search u = None \<Longrightarrow> needs_search (merge_update st u) = needs_search st"
  by (simp add: merge_update_def)

lemma merge_messages_nonempty: "messages st \<noteq> [] \<Longrightarrow> messages (merge_update st u) \<noteq> []"
  by (simp add: merge_update_def split: option.splits)

lemma should_search_node_returns:
  assumes "messages st \<noteq> []" and "\<forall>h p. \<exists>t. llm e h p = Inr t"
  shows "\<exists>u w'. should_search_node e st w = (Inr u, w')"
proof -
  obtain m ms where ms: "messages st = m # ms" using assms(1) by (cases "messages st") auto
  obtain t where "llm e (llm_calls w) (decide_prompt (last (m # ms))) = Inr t"
    using assms(2) by blast
  then show ?thesis by (simp add: should_search_node_def ms llm_invoke_def)
qed

lemma search_node_returns:
  assumes "messages st \<noteq> []" and "\<forall>h q. \<exists>rs. search_tool e h q = Inr rs"
  shows "\<exists>u w'. search_node e st w = (Inr u, w')"
proof -
  obtain m ms where ms: "messages st = m # ms" using assms(1) by (cases "messages st") auto
  obtain rs where "search_tool e (search_calls w) (content (last (m # ms))) = Inr rs"
    using assms(2) by blast
  then show ?thesis by (simp add: search_node_def ms search_tool_invoke_def)
qed

lemma respond_node_returns:
  assumes "messages st \<noteq> []" and "\<forall>h p. \<exists>t. llm e h p = Inr t"
  shows "\<exists>u w'. respond_node e st w = (Inr u, w')"
proof -
  let ?p = "prompt_head (messages st) @ [HumanMessage (final_query (messages st))]"
  obtain t where "llm e (llm_calls w) ?p = Inr t" using assms(2) by blast
  then show ?thesis
    by (simp add: respond_node_def respond_prompt_nonempty[OF assms(1)] llm_invoke_def)
qed

lemma search_node_raises:
  assumes "messages st \<noteq> []"
    and "search_tool e (search_calls w) (content (last (messages st))) = Inl x"
  shows "search_node e st w =
           (Inl x, w\<lparr>search_calls := search_calls w @ [content (last (messages st))]\<rparr>)"
proof -
  obtain m ms where ms: "messages st = m # ms" using assms(1) by (cases "messages st") auto
  show ?thesis using assms(2)
    by (simp add: search_node_def ms search_tool_invoke_def)
qed

subsection \<open>A run of the workflow\<close>

lemma exec_END:
  "exec g limit END state w tr =
     \<lparr>trace = tr, final_state = state, final_world = w, raised = None\<rparr>"
  by (simp add: exec.simps)

lemma exec_Suc:
  "n \<noteq> END \<Longrightarrow> exec g (Suc k) n state w tr =
     (case map_of (nodes g) n of
        None \<Rightarrow> \<lparr>trace = tr, final_state = state, final_world = w,
                  raised = Some InvalidGraph\<rparr>
      | Some f \<Rightarrow>
          (case f state w of
             (Inl x, w') \<Rightarrow> \<lparr>trace = tr @ [n], final_state = state, final_world = w',
                              raised = Some x\<rparr>
           | (Inr u, w') \<Rightarrow>
               (case successor g n (merge_update state u) of
                  None \<Rightarrow> \<lparr>trace = tr @ [n], final_state = merge_update state u,
                            final_world = w', raised = Some InvalidGraph\<rparr>
                | Some n' \<Rightarrow> exec g k n' (merge_update state u) w' (tr @ [n]))))"
  by (subst exec.simps) simp

lemma exec_respond:
  "exec (workflow e) (Suc k) ''respond'' state w tr =
     (case respond_node e state w of
        (Inl x, w') \<Rightarrow> \<lparr>trace = tr @ [''respond''], final_state = state, final_world = w',
                         raised = Some x\<rparr>
      | (Inr u, w') \<Rightarrow> \<lparr>trace = tr @ [''respond''], final_state = merge_update state u,
                         final_world = w', raised = None\<rparr>)"
  by (simp add: exec_Suc END_def)
     (simp add: workflow_def successor_def exec_END[unfolded END_def] END_def
           split: prod.splits sum.splits)

lemma exec_search:
  "exec (workflow e) (Suc k) ''search'' state w tr =
     (case search_node e state w of
        (Inl x, w') \<Rightarrow> \<lparr>trace = tr @ [''search''], final_state = state, final_world = w',
                         raised = Some x\<rparr>
      | (Inr u, w') \<Rightarrow>
          exec (workflow e) k ''respond'' (merge_update state u) w' (tr @ [''search'']))"
  by (simp add: exec_Suc END_def)
     (simp add: workflow_def successor_def split: prod.splits sum.splits)

lemma exec_decide:
  "exec (workflow e) (Suc k) ''decide'' state w tr =
     (case should_search_node e state w of
        (Inl x, w') \<Rightarrow> \<lparr>trace = tr @ [''decide''], final_state = state, final_world = w',
                         raised = Some x\<rparr>
      | (Inr u, w') \<Rightarrow>
          exec (workflow e) k
            (if needs_search (merge_update state u) then ''search'' else ''respond'')
            (merge_update state u) w' (tr @ [''decide'']))"
  by (simp add: exec_Suc END_def)
     (simp add: workflow_def successor_def route_after_decision_def
           split: prod.splits sum.splits)

lemma entry_point_workflow: "entry_point (workflow e) = ''decide''"
  by (simp add: workflow_def)

text \<open>With room for three nodes, a run is one of six straight lines.\<close>

lemma run_unfold:
  "app_invoke e (Suc (Suc (Suc k))) inputs w =
     (case should_search_node e inputs w of
        (Inl x, w1) \<Rightarrow>
          \<lparr>trace = [''decide''], final_state = inputs, final_world = w1, raised = Some x\<rparr>
      | (Inr u1, w1) \<Rightarrow>
          if needs_search (merge_update inputs u1)
          then (case search_node e (merge_update inputs u1) w1 of
                  (Inl x, w2) \<Rightarrow>
                    \<lparr>trace = [''decide'', ''search''], final_state = merge_update inputs u1,
                     final_world = w2, raised = Some x\<rparr>
                | (Inr u2, w2) \<Rightarrow>
                    (case respond_node e (merge_update (merge_update inputs u1) u2) w2 of
                       (Inl x, w3) \<Rightarrow>
                         \<lparr>trace = [''decide'', ''search'', ''respond''],
                          final_state = merge_update (merge_update inputs u1) u2,
                          final_world = w3, raised = Some x\<rparr>
                     | (Inr u3, w3) \<Rightarrow>
                         \<lparr>trace = [''decide'', ''search'', ''respond''],
                          final_state =
                            merge_update (merge_update (merge_update inputs u1) u2) u3,
                          final_world = w3, raised = None\<rparr>))
          else (case respond_node e (merge_update inputs u1) w1 of
                  (Inl x, w3) \<Rightarrow>
                    \<lparr>trace = [''decide'', ''respond''], final_state = merge_update inputs u1,
                     final_world = w3, raised = Some x\<rparr>
                | (Inr u3, w3) \<Rightarrow>
                    \<lparr>trace = [''decide'', ''respond''],
                     final_state = merge_update (merge_update inputs u1) u3,
                     final_world = w3, raised = None\<rparr>))"
  by (simp add: app_invoke_def entry_point_workflow exec_decide exec_search exec_respond
           split: prod.splits sum.splits)

lemma run_trace_shapes:
  "trace (app_invoke e (Suc (Suc (Suc k))) inputs w) \<in>
     {[''decide''], [''decide'', ''search''], [''decide'', ''search'', ''respond''],
      [''decide'', ''respond'']}"
  by (simp add: run_unfold split: prod.splits sum.splits)

lemma run_finished_path:
  assumes fin: "raised (app_invoke e (Suc (Suc (Suc k))) inputs w) = None"
  shows "(\<exists>u w'. should_search_node e inputs w = (Inr u, w') \<and>
            upd_needs_search u =
              Some (needs_search (final_state (app_invoke e (Suc (Suc (Suc k))) inputs w))))
         \<and> trace (app_invoke e (Suc (Suc (Suc k))) inputs w) =
             (if needs_search (final_state (app_invoke e (Suc (Suc (Suc k))) inputs w))
              then [''decide'', ''search'', ''respond''] else [''decide'', ''respond''])"
proof -
  let ?r = "app_invoke e (Suc (Suc (Suc k))) inputs w"
  obtain a1 w1 where d: "should_search_node e inputs w = (a1, w1)"
    by (cases "should_search_node e inputs w")
  from fin d obtain u1 where a1: "a1 = Inr u1" by (cases a1) (simp_all add: run_unfold)
  let ?s1 = "merge_update inputs u1"
  from d a1 have f1: "upd_needs_search u1 = Some (needs_search ?s1)"
    using should_search_node_update[of e inputs w u1 w1] by (auto simp: merge_update_def)
  show ?thesis
  proof (cases "needs_search ?s1")
    case True
    obtain a2 w2 where sn: "search_node e ?s1 w1 = (a2, w2)"
      by (cases "search_node e ?s1 w1")
    from fin d a1 True sn obtain u2 where a2: "a2 = Inr u2"
      by (cases a2) (simp_all add: run_unfold)
    let ?s2 = "merge_update ?s1 u2"
    have k2: "needs_search ?s2 = needs_search ?s1"
      using search_node_update[of e ?s1 w1 u2 w2] sn a2 by (simp add: merge_keeps_flag)
    obtain a3 w3 where rn: "respond_node e ?s2 w2 = (a3, w3)"
      by (cases "respond_node e ?s2 w2")
    from fin d a1 True sn a2 rn obtain u3 where a3: "a3 = Inr u3"
      by (cases a3) (simp_all add: run_unfold)
    have k3: "needs_search (merge_update ?s2 u3) = needs_search ?s2"
      using respond_node_update[of e ?s2 w2 u3 w3] rn a3 by (simp add: merge_keeps_flag)
    have "?r = \<lparr>trace = [''decide'', ''search'', ''respond''],
                final_state = merge_update ?s2 u3, final_world = w3, raised = None\<rparr>"
      using d a1 True sn a2 rn a3 by (simp add: run_unfold)
    with d a1 f1 k2 k3 True show ?thesis by simp
  next
    case False
    obtain a3 w3 where rn: "respond_node e ?s1 w1 = (a3, w3)"
      by (cases "respond_node e ?s1 w1")
    from fin d a1 False rn obtain u3 where a3: "a3 = Inr u3"
      by (cases a3) (simp_all add: run_unfold)
    have k3: "needs_search (merge_update ?s1 u3) = needs_search ?s1"
      using respond_node_update[of e ?s1 w1 u3 w3] rn a3 by (simp add: merge_keeps_flag)
    have "?r = \<lparr>trace = [''decide'', ''respond''], final_state = merge_update ?s1 u3,
                final_world = w3, raised = None\<rparr>"
      using d a1 False rn a3 by (simp add: run_unfold)
    with d a1 f1 k3 False show ?thesis by simp
  qed
qed

lemma run_returns:
  assumes "messages inputs \<noteq> []" and l: "\<forall>h p. \<exists>t. llm e h p = Inr t"
    and s: "\<forall>h q. \<exists>rs. search_tool e h q = Inr rs"
  shows "raised (app_invoke e (Suc (Suc (Suc k))) inputs w) = None"
proof -
  obtain u1 w1 where d: "should_search_node e inputs w = (Inr u1, w1)"
    using should_search_node_returns[OF assms(1) l] by blast
  let ?s1 = "merge_update inputs u1"
  have ne1: "messages ?s1 \<noteq> []" using assms(1) by (rule merge_messages_nonempty)
  show ?thesis
  proof (cases "needs_search ?s1")
    case True
    obtain u2 w2 where sn: "search_node e ?s1 w1 = (Inr u2, w2)"
      using search_node_returns[OF ne1 s] by blast
    have ne2: "messages (merge_update ?s1 u2) \<noteq> []"
      using ne1 by (rule merge_messages_nonempty)
    obtain u3 w3 where "respond_node e (merge_update ?s1 u2) w2 = (Inr u3, w3)"
      using respond_node_returns[OF ne2 l] by blast
    with d True sn show ?thesis by (simp add: run_unfold)
  next
    case False
    obtain u3 w3 where "respond_node e ?s1 w1 = (Inr u3, w3)"
      using respond_node_returns[OF ne1 l] by blast
    with d False show ?thesis by (simp add: run_unfold)
  qed
qed

lemma three_le: "3 \<le> limit \<Longrightarrow> \<exists>k. limit = Suc (Suc (Suc k))"
  by presburger

lemma limit_25: "(25::nat) = Suc (Suc (Suc 22))"
  by simp

section \<open>The claims about the search-or-not graph\<close>

text \<open>
  C1 (the code departs from it). The claim: whenever the state holds a user-role message,
  the prompt of the respond node ends with a user-role message carrying the content of the
  first user-role message of the history. The loop of \<open>respond_node\<close> overwrites
  \<open>user_query\<close> at every user-role message, so the prompt carries the latest one: on a
  history of two user turns the prompt ends with the second question, while the first
  user-role message holds the first question.
\<close>

theorem respond_prompt_two_turns:
  "respond_prompt two_turn_inputs =
     Inr [SystemMessage respond_instruction, HumanMessage ''Who maintains it?'']
   \<and> llm_calls (snd (respond_node demo_env two_turn_inputs w0)) =
       [[SystemMessage respond_instruction, HumanMessage ''Who maintains it?'']]
   \<and> content (hd (filter is_user (messages two_turn_inputs))) = ''What is LangGraph?''"
  by (simp add: respond_node_def respond_prompt_def or_last_content_def scan_messages_def
        two_turn_inputs_def user_says_def assistant_says_def is_user_def llm_invoke_def
        demo_env_def w0_def)

text \<open>
  C2. On a state with at least one message, when the model adapter answers the
  classification request with a text, the decision node returns the update that sets
  \<open>needs_search\<close> to whether that text contains "yes" as a case-insensitive substring
  (so to false for every text without it), and leaves the messages alone. It sends the
  model exactly one request, the instruction and the latest message's content: there is
  no retry.
\<close>

theorem decide_sets_needs_search:
  assumes "messages st \<noteq> []"
    and "llm e (llm_calls w) (decide_prompt (last (messages st))) = Inr response"
  shows "should_search_node e st w =
           (Inr \<lparr>upd_messages = None, upd_needs_search = Some (contains_yes_ci response)\<rparr>,
            w\<lparr>llm_calls := llm_calls w @ [decide_prompt (last (messages st))]\<rparr>)
         \<and> needs_search (merge_update st
               \<lparr>upd_messages = None, upd_needs_search = Some (contains_yes_ci response)\<rparr>)
             = contains_yes_ci response
         \<and> messages (merge_update st
               \<lparr>upd_messages = None, upd_needs_search = Some (contains_yes_ci response)\<rparr>)
             = messages st"
proof -
  obtain m ms where ms: "messages st = m # ms" using assms(1) by (cases "messages st") auto
  show ?thesis using assms(2)
    by (simp add: should_search_node_def ms llm_invoke_def yes_in_lower merge_update_def)
qed

theorem decide_sets_needs_search_witness:
  "messages weather_inputs \<noteq> []
   \<and> llm demo_env (llm_calls w0) (decide_prompt (last (messages weather_inputs))) = Inr ''Yes.''
   \<and> should_search_node demo_env weather_inputs w0 =
       (Inr \<lparr>upd_messages = None, upd_needs_search = Some True\<rparr>,
        \<lparr>llm_calls = [decide_prompt (user_says ''weather today?'')], search_calls = []\<rparr>)"
proof -
  have h1: "messages weather_inputs \<noteq> []" by (simp add: weather_inputs_def)
  have h2: "llm demo_env (llm_calls w0) (decide_prompt (last (messages weather_inputs)))
              = Inr ''Yes.''"
    by (simp add: demo_env_def w0_def)
  show ?thesis
    using h1 h2 decide_sets_needs_search [OF h1 h2]
    by (simp add: w0_def weather_inputs_def)
qed

text \<open>
  C3 (amended). With a recursion limit of at least three: every run enters
  \<open>decide\<close> first and its nodes are \<open>decide\<close>, \<open>decide, search\<close>,
  \<open>decide, search, respond\<close> or \<open>decide, respond\<close>, so no node is entered twice. A run in
  which no node raises reaches END; \<open>decide\<close> has then returned the value of
  \<open>needs_search\<close>, and the run took \<open>decide, search, respond\<close> when that value is true
  and \<open>decide, respond\<close> when it is false. No node raises when the input holds at least
  one message and neither adapter raises.
\<close>

theorem workflow_paths:
  "3 \<le> limit \<Longrightarrow>
     trace (app_invoke e limit inputs w) \<in>
       {[''decide''], [''decide'', ''search''], [''decide'', ''search'', ''respond''],
        [''decide'', ''respond'']}
     \<and> (raised (app_invoke e limit inputs w) = None \<longrightarrow>
          (\<exists>u w'. should_search_node e inputs w = (Inr u, w') \<and>
             upd_needs_search u =
               Some (needs_search (final_state (app_invoke e limit inputs w))))
          \<and> trace (app_invoke e limit inputs w) =
               (if needs_search (final_state (app_invoke e limit inputs w))
                then [''decide'', ''search'', ''respond''] else [''decide'', ''respond'']))
     \<and> (messages inputs \<noteq> [] \<and> (\<forall>h p. \<exists>t. llm e h p = Inr t) \<and>
          (\<forall>h q. \<exists>rs. search_tool e h q = Inr rs) \<longrightarrow>
          raised (app_invoke e limit inputs w) = None)"
proof -
  assume "3 \<le> limit"
  then obtain k where k: "limit = Suc (Suc (Suc k))" using three_le by blast
  show ?thesis
    unfolding k
    using run_trace_shapes[of e k inputs w] run_finished_path[of e k inputs w]
      run_returns[of inputs e k w]
    by blast
qed

theorem workflow_paths_witness:
  "(3::nat) \<le> 25
   \<and> messages weather_inputs \<noteq> []
   \<and> raised (app_invoke demo_env 25 weather_inputs w0) = None
   \<and> needs_search (final_state (app_invoke demo_env 25 weather_inputs w0))
   \<and> trace (app_invoke demo_env 25 weather_inputs w0) = [''decide'', ''search'', ''respond'']"
proof -
  have h: "(3::nat) \<le> 25" by simp
  have m: "messages weather_inputs \<noteq> []" by (simp add: weather_inputs_def)
  have l: "\<forall>h p. \<exists>t. llm demo_env h p = Inr t" by (simp add: demo_env_def)
  have s: "\<forall>h q. \<exists>rs. search_tool demo_env h q = Inr rs" by (simp add: demo_env_def)
  have d: "should_search_node demo_env weather_inputs w0 =
             (Inr \<lparr>upd_messages = None, upd_needs_search = Some True\<rparr>,
              \<lparr>llm_calls = [decide_prompt (user_says ''weather today?'')], search_calls = []\<rparr>)"
    by (simp add: should_search_node_def weather_inputs_def demo_env_def w0_def llm_invoke_def
          py_lower_def lower_char_def)
  from workflow_paths [OF h, of demo_env weather_inputs w0] m l s d
  show ?thesis by auto
qed

theorem workflow_paths_counterexample:
  "trace (app_invoke demo_env 25 empty_inputs w0) = [''decide'']
   \<and> raised (app_invoke demo_env 25 empty_inputs w0) = Some IndexError
   \<and> ''respond'' \<notin> set (trace (app_invoke demo_env 25 empty_inputs w0))"
  unfolding limit_25 run_unfold
  by (simp add: should_search_node_def empty_inputs_def)

text \<open>
  C4. The formatted block of no results is empty; of one result it is
  \<open>Result 1: <content>\<close>; and each further result adds a newline and the line
  \<open>Result i: <content>\<close>, \<open>i\<close> being its 1-based position written in decimal (one digit
  below ten, otherwise the digits of \<open>i div 10\<close> followed by the digit \<open>i mod 10\<close>). So
  for every list the block is the lines, in the adapter's order, numbered from 1 and
  joined by newlines; for the results \<open>a\<close> and \<open>b\<close> it is \<open>Result 1: a\<close>, a newline,
  \<open>Result 2: b\<close>. When the adapter returns the results for the latest message's content,
  the search node appends exactly one message to the conversation: an assistant-role
  message whose content is a header naming the query followed by the block;
  \<open>needs_search\<close> is left as it was.
\<close>

theorem search_node_formats_results:
  "formatted_results [] = []
   \<and> formatted_results [r] = ''Result 1: '' @ res_content r
   \<and> (rs \<noteq> [] \<longrightarrow>
        formatted_results (rs @ [r]) =
          formatted_results rs @ [CHR 0x0A] @ ''Result '' @ str_nat (length rs + 1) @ '': '' @
          res_content r)
   \<and> (n < 10 \<longrightarrow> str_nat n = [''0123456789'' ! n])
   \<and> (10 \<le> n \<longrightarrow> str_nat n = str_nat (n div 10) @ str_nat (n mod 10))
   \<and> formatted_results
        [\<lparr>res_url = u1, res_content = ''a''\<rparr>, \<lparr>res_url = u2, res_content = ''b''\<rparr>]
        = ''Result 1: a'' @ [CHR 0x0A] @ ''Result 2: b''
   \<and> (messages st \<noteq> [] \<and>
        search_tool e (search_calls w) (content (last (messages st))) = Inr results \<longrightarrow>
        (\<exists>u w'. search_node e st w = (Inr u, w') \<and>
           messages (merge_update st u) =
             messages st @
               [\<lparr>role = ''assistant'',
                 content = ''Search results for '' @ [CHR 0x27] @
                           content (last (messages st)) @ [CHR 0x27] @ '':'' @ [CHR 0x0A] @
                           formatted_results results\<rparr>] \<and>
           needs_search (merge_update st u) = needs_search st))"
proof (intro conjI impI)
  show "formatted_results [] = []" by (rule formatted_results_Nil)
next
  show "formatted_results [r] = ''Result 1: '' @ res_content r"
    by (rule formatted_results_single)
next
  assume "rs \<noteq> []"
  then show "formatted_results (rs @ [r]) =
          formatted_results rs @ [CHR 0x0A] @ ''Result '' @ str_nat (length rs + 1) @ '': '' @
          res_content r"
    by (rule formatted_results_snoc)
next
  assume "n < 10"
  then show "str_nat n = [''0123456789'' ! n]" by (rule str_nat_small)
next
  assume "10 \<le> n"
  then show "str_nat n = str_nat (n div 10) @ str_nat (n mod 10)" by (rule str_nat_large)
next
  show "formatted_results
          [\<lparr>res_url = u1, res_content = ''a''\<rparr>, \<lparr>res_url = u2, res_content = ''b''\<rparr>]
        = ''Result 1: a'' @ [CHR 0x0A] @ ''Result 2: b''"
    by (rule formatted_two_results)
next
  assume a: "messages st \<noteq> [] \<and>
        search_tool e (search_calls w) (content (last (messages st))) = Inr results"
  then obtain m ms where ms: "messages st = m # ms" by (cases "messages st") auto
  from a show "\<exists>u w'. search_node e st w = (Inr u, w') \<and>
           messages (merge_update st u) =
             messages st @
               [\<lparr>role = ''assistant'',
                 content = ''Search results for '' @ [CHR 0x27] @
                           content (last (messages st)) @ [CHR 0x27] @ '':'' @ [CHR 0x0A] @
                           formatted_results results\<rparr>] \<and>
           needs_search (merge_update st u) = needs_search st"
    by (simp add: search_node_def ms search_tool_invoke_def merge_update_def
          search_message_def)
qed

theorem search_node_formats_results_witness:
  "messages weather_inputs \<noteq> []
   \<and> search_tool demo_env (search_calls w0) (content (last (messages weather_inputs)))
       = Inr two_results
   \<and> formatted_results two_results = ''Result 1: a'' @ [CHR 0x0A] @ ''Result 2: b''
   \<and> str_nat 12 = ''12''
   \<and> (\<exists>u w'. search_node demo_env weather_inputs w0 = (Inr u, w') \<and>
         messages (merge_update weather_inputs u) =
           [user_says ''weather today?'',
            assistant_says (''Search results for '' @ [CHR 0x27] @ ''weather today?'' @
              [CHR 0x27] @ '':'' @ [CHR 0x0A] @ ''Result 1: a'' @ [CHR 0x0A] @
              ''Result 2: b'')])"
proof -
  let ?a = "\<lparr>res_url = ''u1'', res_content = ''a''\<rparr>"
  let ?b = "\<lparr>res_url = ''u2'', res_content = ''b''\<rparr>"
  have h1: "messages weather_inputs \<noteq> []" by (simp add: weather_inputs_def)
  have h2: "search_tool demo_env (search_calls w0) (content (last (messages weather_inputs)))
              = Inr two_results"
    by (simp add: demo_env_def)
  have q: "content (last (messages weather_inputs)) = ''weather today?''"
    by (simp add: weather_inputs_def user_says_def)
  note t = search_node_formats_results
             [where r = ?b and rs = "[?a]" and n = 2 and ?u1.0 = "''u1''" and ?u2.0 = "''u2''"
                and st = weather_inputs and e = demo_env and w = w0 and results = two_results]
  from t have f: "formatted_results two_results =
                    ''Result 1: a'' @ [CHR 0x0A] @ ''Result 2: b''"
    unfolding two_results_def by blast
  from search_node_formats_results [where n = 1]
  have "(1::nat) < 10 \<longrightarrow> str_nat 1 = [''0123456789'' ! 1]" by blast
  then have d1: "str_nat 1 = ''1''" by simp
  from t have "(2::nat) < 10 \<longrightarrow> str_nat 2 = [''0123456789'' ! 2]" by blast
  then have d2: "str_nat 2 = ''2''" by simp
  from search_node_formats_results [where n = 12]
  have "(10::nat) \<le> 12 \<longrightarrow> str_nat 12 = str_nat (12 div 10) @ str_nat (12 mod 10)"
    by blast
  with d1 d2 have n12: "str_nat 12 = ''12''" by simp
  from t have "messages weather_inputs \<noteq> [] \<and>
        search_tool demo_env (search_calls w0) (content (last (messages weather_inputs)))
          = Inr two_results \<longrightarrow>
        (\<exists>u w'. search_node demo_env weather_inputs w0 = (Inr u, w') \<and>
           messages (merge_update weather_inputs u) =
             messages weather_inputs @
               [\<lparr>role = ''assistant'',
                 content = ''Search results for '' @ [CHR 0x27] @
                           content (last (messages weather_inputs)) @ [CHR 0x27] @ '':'' @
                           [CHR 0x0A] @ formatted_results two_results\<rparr>] \<and>
           needs_search (merge_update weather_inputs u) = needs_search weather_inputs)"
    by blast
  with h1 h2
  have "\<exists>u w'. search_node demo_env weather_inputs w0 = (Inr u, w') \<and>
           messages (merge_update weather_inputs u) =
             messages weather_inputs @
               [\<lparr>role = ''assistant'',
                 content = ''Search results for '' @ [CHR 0x27] @
                           content (last (messages weather_inputs)) @ [CHR 0x27] @ '':'' @
                           [CHR 0x0A] @ formatted_results two_results\<rparr>]"
    by auto
  then show ?thesis
    using h1 h2 f n12 unfolding q
    by (simp add: weather_inputs_def assistant_says_def)
qed



text \<open>
  C8. When the search adapter raises on the latest message's content, the search node
  ends with that exception: it returns no update, so it appends no message. In a run in
  which \<open>decide\<close> asked for a search, the run ends at \<open>search\<close> with the same
  exception, \<open>respond\<close> is not entered, and the state is the one \<open>decide\<close> left.
\<close>

theorem search_failure_propagates:
  assumes "messages st \<noteq> []"
    and "search_tool e (search_calls w) (content (last (messages st))) = Inl x"
  shows "search_node e st w =
           (Inl x, w\<lparr>search_calls := search_calls w @ [content (last (messages st))]\<rparr>)
         \<and> (\<forall>limit inputs w_in u.
               3 \<le> limit \<and> should_search_node e inputs w_in = (Inr u, w) \<and>
               merge_update inputs u = st \<and> needs_search st \<longrightarrow>
               app_invoke e limit inputs w_in =
                 \<lparr>trace = [''decide'', ''search''], final_state = st,
                  final_world =
                    w\<lparr>search_calls := search_calls w @ [content (last (messages st))]\<rparr>,
                  raised = Some x\<rparr>)"
proof (intro conjI allI impI)
  show n: "search_node e st w =
           (Inl x, w\<lparr>search_calls := search_calls w @ [content (last (messages st))]\<rparr>)"
    using assms by (rule search_node_raises)
  fix limit :: nat and inputs w_in u
  assume a: "3 \<le> limit \<and> should_search_node e inputs w_in = (Inr u, w) \<and>
               merge_update inputs u = st \<and> needs_search st"
  then obtain k where k: "limit = Suc (Suc (Suc k))" using three_le by blast
  from a n show "app_invoke e limit inputs w_in =
                 \<lparr>trace = [''decide'', ''search''], final_state = st,
                  final_world =
                    w\<lparr>search_calls := search_calls w @ [content (last (messages st))]\<rparr>,
                  raised = Some x\<rparr>"
    unfolding k by (simp add: run_unfold)
qed

theorem search_failure_propagates_witness:
  "messages (weather_inputs\<lparr>needs_search := True\<rparr>) \<noteq> []
   \<and> search_tool search_down_env (search_calls (w0\<lparr>llm_calls := [decide_prompt (user_says ''weather today?'')]\<rparr>))
       (content (last (messages (weather_inputs\<lparr>needs_search := True\<rparr>)))) = Inl ConnectionError
   \<and> app_invoke search_down_env 25 weather_inputs w0 =
       \<lparr>trace = [''decide'', ''search''],
        final_state = weather_inputs\<lparr>needs_search := True\<rparr>,
        final_world = \<lparr>llm_calls = [decide_prompt (user_says ''weather today?'')],
                       search_calls = [''weather today?'']\<rparr>,
        raised = Some ConnectionError\<rparr>"
proof -
  let ?st = "weather_inputs\<lparr>needs_search := True\<rparr>"
  let ?w = "w0\<lparr>llm_calls := [decide_prompt (user_says ''weather today?'')]\<rparr>"
  let ?u = "\<lparr>upd_messages = None, upd_needs_search = Some True\<rparr>"
  have h1: "messages ?st \<noteq> []" by (simp add: weather_inputs_def)
  have h2: "search_tool search_down_env (search_calls ?w) (content (last (messages ?st)))
              = Inl ConnectionError"
    by (simp add: search_down_env_def)
  have d: "should_search_node search_down_env weather_inputs w0 = (Inr ?u, ?w)"
    by (simp add: should_search_node_def weather_inputs_def search_down_env_def w0_def
          llm_invoke_def py_lower_def lower_char_def)
  have m: "merge_update weather_inputs ?u = ?st"
    by (simp add: merge_update_def weather_inputs_def)
  from search_failure_propagates [OF h1 h2] d m
  have "app_invoke search_down_env 25 weather_inputs w0 =
          \<lparr>trace = [''decide'', ''search''], final_state = ?st,
           final_world = ?w\<lparr>search_calls := search_calls ?w @ [content (last (messages ?st))]\<rparr>,
           raised = Some ConnectionError\<rparr>"
    by (simp add: weather_inputs_def)
  then show ?thesis using h1 h2
    by (simp add: w0_def weather_inputs_def user_says_def)
qed

section \<open>Properties of the memory hook and of the entrypoint\<close>

lemma find_rev_last:
  "find P (rev xs) = (if filter P xs = [] then None else Some (last (filter P xs)))"
  by (induction xs rule: rev_induct) simp_all

lemma find_human_none:
  "(\<forall>m \<in> set msgs. \<not> is_human m) \<Longrightarrow> find is_human (rev msgs) = None"
  by (simp add: find_rev_last filter_empty_conv)

lemma find_human_some:
  "(\<exists>m \<in> set msgs. is_human m) \<Longrightarrow>
     find is_human (rev msgs) = Some (last (filter is_human msgs))"
  by (auto simp: find_rev_last filter_empty_conv)

lemma final_answers_Nil: "final_answers [] = []"
  by (simp add: final_answers_def map_filter_simps)

lemma final_answers_Cons:
  "final_answers (c # cs) =
     (case chunk_answer c of None \<Rightarrow> final_answers cs | Some a \<Rightarrow> a # final_answers cs)"
  by (simp add: final_answers_def map_filter_simps split: option.splits)

lemma capture_well_formed:
  "c \<noteq> Some [] \<Longrightarrow>
     capture c fa = Inr (case chunk_answer c of None \<Rightarrow> fa | Some a \<Rightarrow> Some a)"
proof (cases c)
  case None
  then show ?thesis by simp
next
  case (Some msgs)
  assume "c \<noteq> Some []"
  with Some obtain m ms where "msgs = m # ms" by (cases msgs) auto
  with Some show ?thesis by simp
qed

lemma consume_well_formed:
  "\<forall>c \<in> set cs. c \<noteq> Some [] \<Longrightarrow>
     consume cs step fa =
       Inr (step + length cs,
            if final_answers cs = [] then fa else Some (last (final_answers cs)))"
proof (induction cs arbitrary: step fa)
  case Nil
  show ?case by (simp add: final_answers_Nil)
next
  case (Cons c cs)
  then have c: "c \<noteq> Some []" and cs: "\<forall>c \<in> set cs. c \<noteq> Some []" by auto
  show ?case
    by (simp add: capture_well_formed [OF c] Cons.IH [OF cs] final_answers_Cons
          split: option.splits)
qed

lemma chunk_answer_nonempty: "chunk_answer c = Some a \<Longrightarrow> a \<noteq> []"
proof (cases c)
  case None
  assume "chunk_answer c = Some a"
  with None show ?thesis by simp
next
  case (Some msgs)
  assume a: "chunk_answer c = Some a"
  with Some have f: "is_final_answer (last msgs)" and e: "a = message_content (last msgs)"
    by (auto split: if_splits)
  from f e show ?thesis by (cases "last msgs") simp_all
qed

lemma final_answers_nonempty: "a \<in> set (final_answers cs) \<Longrightarrow> a \<noteq> []"
proof (induction cs)
  case Nil
  then show ?case by (simp add: final_answers_Nil)
next
  case (Cons c cs)
  then show ?case
    by (auto simp: final_answers_Cons split: option.splits dest: chunk_answer_nonempty)
qed

lemma run_stream_well_formed:
  assumes "stream_raised s = None" and "\<forall>c \<in> set (chunks s). c \<noteq> Some []"
  shows "run_stream s =
           Inr (length (chunks s),
                if final_answers (chunks s) = [] then None
                else Some (last (final_answers (chunks s))))"
  using assms by (simp add: run_stream_def consume_well_formed)

lemma body_not_dict:
  "\<not> truthy payload \<or> \<not> is_dict payload \<Longrightarrow>
     invocation_body agent payload =
       Inr [(''error'', PStr invalid_payload_text), (''result'', PNone)]"
  by (auto simp: invocation_body_def)

lemma body_dict:
  "d \<noteq> [] \<Longrightarrow>
   invocation_body agent (PDict d) =
     (case strip_method (dict_get d ''prompt'' (PStr [])) of
             Inl x \<Rightarrow> Inl x
           | Inr user_message \<Rightarrow>
                if user_message = []
                   then Inr [(''error'', PStr no_prompt_text), (''result'', PNone)]
                   else (case run_stream (agent [HumanMessage user_message] (run_config d)) of
                           Inl x \<Rightarrow>
                             Inr [(''error'',
                                   PStr (''Error during agent execution: '' @ str_exn x)),
                                  (''result'', PNone)]
                         | Inr (step, final_answer) \<Rightarrow>
                             (case final_answer of
                                None \<Rightarrow>
                                  Inr [(''error'', PStr ''Agent failed to generate a response''),
                                       (''result'', PNone)]
                              | Some answer \<Rightarrow>
                                  if answer = []
                                  then Inr [(''error'',
                                             PStr ''Agent failed to generate a response''),
                                            (''result'', PNone)]
                                  else Inr [(''result'', PStr answer),
                                            (''steps'', PInt (int step)),
                                            (''success'', PBool True)])))"
  by (simp add: invocation_body_def Let_def split: sum.splits)

lemma str_nat_0: "str_nat 0 = ''0''"
  by code_simp






lemma dropWhile_rev_nonempty: "dropWhile P (rev t) \<noteq> [] \<Longrightarrow> t \<noteq> []"
  by auto

lemma dropWhile_all: "list_all P s \<Longrightarrow> dropWhile P s = []"
  by (induction s) simp_all

lemma py_strip_split:
  "\<exists>pre post. s = pre @ py_strip s @ post \<and> list_all is_space pre \<and> list_all is_space post"
proof -
  let ?t = "dropWhile is_space s"
  have a: "s = takeWhile is_space s @ ?t" by simp
  have b: "rev ?t = takeWhile is_space (rev ?t) @ dropWhile is_space (rev ?t)" by simp
  have "?t = rev (rev ?t)" by simp
  also have "\<dots> = rev (dropWhile is_space (rev ?t)) @ rev (takeWhile is_space (rev ?t))"
    by (subst b) (simp only: rev_append)
  finally have c: "?t = py_strip s @ rev (takeWhile is_space (rev ?t))"
    by (simp add: py_strip_def)
  have p1: "list_all is_space (takeWhile is_space s)"
    by (simp add: list_all_iff) (metis set_takeWhileD)
  have p2: "list_all is_space (rev (takeWhile is_space (rev ?t)))"
    by (simp add: list_all_iff) (metis set_takeWhileD)
  from a c have "s = takeWhile is_space s @ py_strip s @ rev (takeWhile is_space (rev ?t))"
    by simp
  with p1 p2 show ?thesis by blast
qed

lemma py_strip_ends:
  assumes "py_strip s \<noteq> []"
  shows "\<not> is_space (hd (py_strip s)) \<and> \<not> is_space (last (py_strip s))"
proof -
  let ?t = "dropWhile is_space s"
  let ?d = "dropWhile is_space (rev ?t)"
  from assms have d: "?d \<noteq> []" by (simp add: py_strip_def)
  then have t: "?t \<noteq> []" by (rule dropWhile_rev_nonempty)
  have l: "last (py_strip s) = hd ?d" using d by (simp add: py_strip_def last_rev)
  have "\<not> is_space (hd ?d)" using d by (rule hd_dropWhile)
  with l have e2: "\<not> is_space (last (py_strip s))" by simp
  have "rev ?t = takeWhile is_space (rev ?t) @ ?d" by simp
  then have "last (rev ?t) = last ?d" using d by (metis last_appendR)
  then have "hd (py_strip s) = hd ?t" using d t by (simp add: py_strip_def hd_rev last_rev)
  moreover have "\<not> is_space (hd ?t)" using t by (rule hd_dropWhile)
  ultimately show ?thesis using e2 by simp
qed

lemma py_strip_empty_iff: "py_strip s = [] \<longleftrightarrow> list_all is_space s"
proof
  assume "py_strip s = []"
  with py_strip_split [of s] show "list_all is_space s" by auto
next
  assume "list_all is_space s"
  then have "dropWhile is_space s = []" by (rule dropWhile_all)
  then show "py_strip s = []" by (simp only: py_strip_def rev.simps dropWhile.simps)
qed

lemma py_strip_nbsp: "py_strip [CHR 0xA0] = []"
  by (simp add: py_strip_def is_space_def)

lemma py_strip_x: "py_strip ''x'' = ''x''"
  by (simp add: py_strip_def is_space_def)

lemma py_strip_question: "py_strip ''2+2?'' = ''2+2?''"
  by (simp add: py_strip_def is_space_def)

lemma py_strip_blank: "py_strip '' '' = []"
  by (simp add: py_strip_def is_space_def)

section \<open>The claims about the memory hook and the entrypoint\<close>

text \<open>
  C5 (amended). On a state that holds a user-role message the hook draws one fresh id from
  \<open>uuid4\<close> and issues exactly one \<open>put\<close>: the most recent user-role message, under that
  id, in the namespace \<open>(actor_id, thread_id)\<close>. If the \<open>put\<close> returns, the hook issues
  exactly one \<open>search\<close>, in the namespace \<open>("preferences", actor_id)\<close>, with the
  message's content as the query and the limit 5; whatever the search does, raise or
  return, the hook returns the messages and does nothing more than print at most one
  line. If the \<open>put\<close> raises, the hook ends there with its exception, and no lookup is
  made: the \<open>put\<close> stands before the \<open>try\<close>.
\<close>

theorem pre_model_hook_writes_latest_user_message:
  assumes "\<exists>m \<in> set (state_messages state). is_human m"
  shows
    "(case store_put env (log @ [Uuid4 (uuid4 env log)]) (actor_id cfg, thread_id cfg)
             (uuid4 env log) (last (filter is_human (state_messages state))) of
        Some x \<Rightarrow>
          pre_model_hook env cfg state log =
            (Inl x,
             log @ [Uuid4 (uuid4 env log),
                    StorePut (actor_id cfg, thread_id cfg) (uuid4 env log)
                      (last (filter is_human (state_messages state)))])
      | None \<Rightarrow>
          fst (pre_model_hook env cfg state log) = Inr (state_messages state) \<and>
          (\<exists>diag.
             snd (pre_model_hook env cfg state log) =
               log @ [Uuid4 (uuid4 env log),
                      StorePut (actor_id cfg, thread_id cfg) (uuid4 env log)
                        (last (filter is_human (state_messages state))),
                      StoreSearch (PStr ''preferences'', actor_id cfg)
                        (message_content (last (filter is_human (state_messages state)))) 5]
                 @ diag \<and>
             (diag = [] \<or> (\<exists>line. diag = [Print line]))))"
  using find_human_some [OF assms]
  by (simp add: pre_model_hook_def Let_def split: option.splits sum.splits)

theorem pre_model_hook_writes_latest_user_message_witness:
  "(\<exists>m \<in> set (state_messages (Some [HumanMessage ''hi''])). is_human m)
   \<and> fst (pre_model_hook failing_lookup_store u1_t1 (Some [HumanMessage ''hi'']) [])
       = Inr [HumanMessage ''hi'']
   \<and> (\<exists>diag.
         snd (pre_model_hook failing_lookup_store u1_t1 (Some [HumanMessage ''hi'']) []) =
           [Uuid4 ''id-0'',
            StorePut (PStr ''u1'', PStr ''t1'') ''id-0'' (HumanMessage ''hi''),
            StoreSearch (PStr ''preferences'', PStr ''u1'') ''hi'' 5] @ diag \<and>
         (diag = [] \<or> (\<exists>line. diag = [Print line])))"
proof -
  have h: "\<exists>m \<in> set (state_messages (Some [HumanMessage ''hi''])). is_human m"
    by (simp add: state_messages_def)
  from pre_model_hook_writes_latest_user_message
         [OF h, where env = failing_lookup_store and log = "[]" and cfg = u1_t1] h
  show ?thesis
    by (simp add: failing_lookup_store_def u1_t1_def state_messages_def str_nat_0)
qed

theorem pre_model_hook_writes_latest_user_message_counterexample:
  "pre_model_hook failing_put_store u1_t1 (Some [HumanMessage ''hi'']) [] =
     (Inl WriteError,
      [Uuid4 ''id-0'', StorePut (PStr ''u1'', PStr ''t1'') ''id-0'' (HumanMessage ''hi'')])"
  by (simp add: pre_model_hook_def Let_def failing_put_store_def u1_t1_def state_messages_def
        str_nat_0)

text \<open>
  C6. The entrypoint returns the record with an error text and \<open>result\<close> null when the
  payload is empty, null or not a dict, and when the \<open>prompt\<close> is missing or is a string
  that is empty once stripped. When the stream ends without raising (each chunk that has
  messages having at least one): if no chunk shows a final answer, the record is the
  error \<open>Agent failed to generate a response\<close> with \<open>result\<close> null; otherwise it is
  \<open>result\<close>: the last final answer shown, which is not empty, \<open>steps\<close>: the number of
  chunks, which is positive, and \<open>success\<close>: true. The stripped prompt is the prompt
  without the white space at its two ends: what is cut off is white space only, and what
  is left, if anything, neither starts nor ends with white space.
\<close>

theorem agent_invocation_validates:
  "(\<not> truthy payload \<or> \<not> is_dict payload \<longrightarrow>
      agent_invocation agent payload context =
        Inr [(''error'', PStr invalid_payload_text), (''result'', PNone)])
   \<and> (payload = PDict d \<and> d \<noteq> [] \<and>
        (map_of d ''prompt'' = None \<or>
         (\<exists>s. map_of d ''prompt'' = Some (PStr s) \<and> py_strip s = [])) \<longrightarrow>
      agent_invocation agent payload context =
        Inr [(''error'', PStr no_prompt_text), (''result'', PNone)])
   \<and> (payload = PDict d \<and> map_of d ''prompt'' = Some (PStr s) \<and> py_strip s \<noteq> [] \<and>
        stream_raised (agent [HumanMessage (py_strip s)] (run_config d)) = None \<and>
        (\<forall>c \<in> set (chunks (agent [HumanMessage (py_strip s)] (run_config d))). c \<noteq> Some [])
      \<longrightarrow>
        (final_answers (chunks (agent [HumanMessage (py_strip s)] (run_config d))) = [] \<longrightarrow>
           agent_invocation agent payload context =
             Inr [(''error'', PStr ''Agent failed to generate a response''),
                  (''result'', PNone)])
      \<and> (final_answers (chunks (agent [HumanMessage (py_strip s)] (run_config d))) \<noteq> [] \<longrightarrow>
           agent_invocation agent payload context =
             Inr [(''result'',
                   PStr (last (final_answers
                                 (chunks (agent [HumanMessage (py_strip s)] (run_config d)))))),
                  (''steps'',
                   PInt (int (length (chunks (agent [HumanMessage (py_strip s)]
                                               (run_config d)))))),
                  (''success'', PBool True)]
           \<and> last (final_answers (chunks (agent [HumanMessage (py_strip s)] (run_config d))))
               \<noteq> []
           \<and> 0 < length (chunks (agent [HumanMessage (py_strip s)] (run_config d)))))
   \<and> (\<exists>pre post. s = pre @ py_strip s @ post \<and> list_all is_space pre \<and>
         list_all is_space post)
   \<and> (py_strip s \<noteq> [] \<longrightarrow>
        \<not> is_space (hd (py_strip s)) \<and> \<not> is_space (last (py_strip s)))"
proof (intro conjI impI)
  assume "\<not> truthy payload \<or> \<not> is_dict payload"
  then show "agent_invocation agent payload context =
        Inr [(''error'', PStr invalid_payload_text), (''result'', PNone)]"
    by (simp add: agent_invocation_def body_not_dict)
next
  assume a: "payload = PDict d \<and> d \<noteq> [] \<and>
        (map_of d ''prompt'' = None \<or>
         (\<exists>s. map_of d ''prompt'' = Some (PStr s) \<and> py_strip s = []))"
  then have "strip_method (dict_get d ''prompt'' (PStr [])) = Inr []"
    by (auto simp: dict_get_def py_strip_def)
  with a show "agent_invocation agent payload context =
        Inr [(''error'', PStr no_prompt_text), (''result'', PNone)]"
    by (simp add: agent_invocation_def body_dict)
next
  let ?s = "agent [HumanMessage (py_strip s)] (run_config d)"
  assume a: "payload = PDict d \<and> map_of d ''prompt'' = Some (PStr s) \<and> py_strip s \<noteq> [] \<and>
        stream_raised ?s = None \<and> (\<forall>c \<in> set (chunks ?s). c \<noteq> Some [])"
  then have d: "d \<noteq> []" by auto
  from a have st: "strip_method (dict_get d ''prompt'' (PStr [])) = Inr (py_strip s)"
    by (simp add: dict_get_def)
  from a have rs: "run_stream ?s =
           Inr (length (chunks ?s),
                if final_answers (chunks ?s) = [] then None
                else Some (last (final_answers (chunks ?s))))"
    by (simp add: run_stream_well_formed)
  {
    assume "final_answers (chunks ?s) = []"
    with a d st rs show "agent_invocation agent payload context =
             Inr [(''error'', PStr ''Agent failed to generate a response''),
                  (''result'', PNone)]"
      by (simp add: agent_invocation_def body_dict)
  }
  {
    assume ne: "final_answers (chunks ?s) \<noteq> []"
    then have "last (final_answers (chunks ?s)) \<in> set (final_answers (chunks ?s))"
      by (rule last_in_set)
    then show l: "last (final_answers (chunks ?s)) \<noteq> []"
      by (rule final_answers_nonempty)
    with a d st rs ne show "agent_invocation agent payload context =
             Inr [(''result'', PStr (last (final_answers (chunks ?s)))),
                  (''steps'', PInt (int (length (chunks ?s)))),
                  (''success'', PBool True)]"
      by (simp add: agent_invocation_def body_dict)
    from ne show "0 < length (chunks ?s)"
      by (cases "chunks ?s") (simp_all add: final_answers_Nil)
  }
next
  show "\<exists>pre post. s = pre @ py_strip s @ post \<and> list_all is_space pre \<and>
         list_all is_space post"
    by (rule py_strip_split)
next
  assume "py_strip s \<noteq> []"
  from py_strip_ends [OF this]
  show "\<not> is_space (hd (py_strip s))" and "\<not> is_space (last (py_strip s))" by auto
qed

theorem agent_invocation_validates_witness:
  "agent_invocation answering_agent (PDict []) PNone =
     Inr [(''error'', PStr invalid_payload_text), (''result'', PNone)]
   \<and> agent_invocation answering_agent (PDict [(''prompt'', PStr '' '')]) PNone =
       Inr [(''error'', PStr no_prompt_text), (''result'', PNone)]
   \<and> agent_invocation answering_agent (PDict [(''prompt'', PStr [CHR 0xA0])]) PNone =
       Inr [(''error'', PStr no_prompt_text), (''result'', PNone)]
   \<and> agent_invocation silent_agent (PDict [(''prompt'', PStr ''x'')]) PNone =
       Inr [(''error'', PStr ''Agent failed to generate a response''), (''result'', PNone)]
   \<and> agent_invocation answering_agent (PDict [(''prompt'', PStr ''2+2?'')]) PNone =
       Inr [(''result'', PStr ''4''), (''steps'', PInt 2), (''success'', PBool True)]"
proof (intro conjI)
  show "agent_invocation answering_agent (PDict []) PNone =
     Inr [(''error'', PStr invalid_payload_text), (''result'', PNone)]"
    using agent_invocation_validates [of "PDict []" answering_agent PNone "[]" "[]"]
    by simp
next
  show "agent_invocation answering_agent (PDict [(''prompt'', PStr '' '')]) PNone =
       Inr [(''error'', PStr no_prompt_text), (''result'', PNone)]"
    using agent_invocation_validates
            [of "PDict [(''prompt'', PStr '' '')]" answering_agent PNone
                "[(''prompt'', PStr '' '')]" "[]"]
    by (simp add: py_strip_blank)
next
  show "agent_invocation answering_agent (PDict [(''prompt'', PStr [CHR 0xA0])]) PNone =
       Inr [(''error'', PStr no_prompt_text), (''result'', PNone)]"
    using agent_invocation_validates
            [of "PDict [(''prompt'', PStr [CHR 0xA0])]" answering_agent PNone
                "[(''prompt'', PStr [CHR 0xA0])]" "[]"]
    by (simp add: py_strip_nbsp)
next
  show "agent_invocation silent_agent (PDict [(''prompt'', PStr ''x'')]) PNone =
       Inr [(''error'', PStr ''Agent failed to generate a response''), (''result'', PNone)]"
    using agent_invocation_validates
            [of "PDict [(''prompt'', PStr ''x'')]" silent_agent PNone
                "[(''prompt'', PStr ''x'')]" "''x''"]
    by (simp add: py_strip_x silent_agent_def final_answers_def map_filter_simps)
next
  show "agent_invocation answering_agent (PDict [(''prompt'', PStr ''2+2?'')]) PNone =
       Inr [(''result'', PStr ''4''), (''steps'', PInt 2), (''success'', PBool True)]"
    using agent_invocation_validates
            [of "PDict [(''prompt'', PStr ''2+2?'')]" answering_agent PNone
                "[(''prompt'', PStr ''2+2?'')]" "''2+2?''"]
    by (simp add: py_strip_question answering_agent_def final_answers_def map_filter_simps)
qed



text \<open>
  C10 (amended). The hook never returns a changed list. On a state with no user-role
  message it returns the messages it was given and has no effect at all: no id drawn, no
  write, no lookup, nothing printed. On a state with a user-role message it returns the
  messages it was given, unchanged, when the store's write returns (what the lookup
  retrieves is only printed); when the write raises, the hook ends with that exception
  and returns nothing.
\<close>

theorem pre_model_hook_keeps_messages:
  "(filter is_human (state_messages state) = [] \<longrightarrow>
      pre_model_hook env cfg state log = (Inr (state_messages state), log))
   \<and> (filter is_human (state_messages state) \<noteq> [] \<longrightarrow>
        fst (pre_model_hook env cfg state log) =
          (case store_put env (log @ [Uuid4 (uuid4 env log)]) (actor_id cfg, thread_id cfg)
                  (uuid4 env log) (last (filter is_human (state_messages state))) of
             None \<Rightarrow> Inr (state_messages state)
           | Some x \<Rightarrow> Inl x))"
  by (simp add: pre_model_hook_def Let_def find_rev_last split: option.splits sum.splits)

theorem pre_model_hook_keeps_messages_witness:
  "filter is_human (state_messages (Some [AIMessage ''hello'' []])) = []
   \<and> pre_model_hook failing_lookup_store u1_t1 (Some [AIMessage ''hello'' []]) []
       = (Inr [AIMessage ''hello'' []], [])
   \<and> filter is_human (state_messages (Some [HumanMessage ''hi''])) \<noteq> []
   \<and> fst (pre_model_hook failing_lookup_store u1_t1 (Some [HumanMessage ''hi'']) [])
       = Inr [HumanMessage ''hi'']"
proof -
  from pre_model_hook_keeps_messages
         [of "Some [AIMessage ''hello'' []]" failing_lookup_store u1_t1 "[]"]
       pre_model_hook_keeps_messages
         [of "Some [HumanMessage ''hi'']" failing_lookup_store u1_t1 "[]"]
  show ?thesis by (simp add: state_messages_def failing_lookup_store_def)
qed

theorem pre_model_hook_keeps_messages_counterexample:
  "fst (pre_model_hook failing_put_store u1_t1
          (Some [HumanMessage ''hi'', AIMessage ''hello'' []]) []) = Inl WriteError"
  by (simp add: pre_model_hook_def Let_def failing_put_store_def u1_t1_def state_messages_def)

end
